theory Spec2Isabelle
  imports Main
begin

section \<open>The device cycler of the smart-home demo (src/main.py)\<close>

text \<open>
  The logic of the program is the class \<open>SmartHomeApp\<close>: the dictionary \<open>devices\<close>, the
  name \<open>current_device\<close>, the counter \<open>action_count\<close> and the two button handlers
  \<open>toggleLight\<close> and \<open>setThermostat\<close>. The widgets (labels, buttons, timers, animations)
  only display what the handlers computed and are left out; the one expression a handler
  evaluates for them that can raise, \<open>self.devices[self.current_device]\<close>, is kept.
\<close>

subsection \<open>Python values\<close>

text \<open>
  A Python \<open>str\<close> is a sequence of code points. Every code point the program handles is
  below 256, so a string is a \<open>char list\<close> with one \<open>char\<close> per code point; the degree
  sign U+00B0 of \<open>"\<dots>C"\<close> is the single character \<open>0xB0\<close>.
\<close>

datatype error = ValueError | KeyError | ZeroDivisionError

definition degree_sign :: char where
  "degree_sign = CHR 0xB0"

definition degC :: string where
  "degC = [degree_sign, CHR ''C'']"

text \<open>
  \<open>devices\<close> is a \<open>Dict[str, str]\<close>. A Python dictionary keeps its keys in insertion order
  and \<open>list(d.keys())\<close> reads that order, so the dictionary is an association list.
  \<open>d[k]\<close> raises \<open>KeyError\<close> on a missing key; \<open>d[k] = v\<close> overwrites the value of an
  existing key in place and appends a new key at the end.
\<close>

type_synonym pydict = "(string \<times> string) list"

definition dict_keys :: "pydict \<Rightarrow> string list" where
  "dict_keys d = map fst d"

definition dict_get :: "pydict \<Rightarrow> string \<Rightarrow> error + string" where
  "dict_get d k = (case map_of d k of None \<Rightarrow> Inl KeyError | Some v \<Rightarrow> Inr v)"

fun dict_set :: "pydict \<Rightarrow> string \<Rightarrow> string \<Rightarrow> pydict" where
  "dict_set [] k v = [(k, v)]"
| "dict_set ((k', v') # d) k v =
     (if k' = k then (k', v) # d else (k', v') # dict_set d k v)"

text \<open>\<open>xs.index(x)\<close>: the position of the first element equal to \<open>x\<close>, or \<open>ValueError\<close>.\<close>

fun list_index :: "'a list \<Rightarrow> 'a \<Rightarrow> error + nat" where
  "list_index [] x = Inl ValueError"
| "list_index (y # ys) x =
     (if y = x then Inr 0
      else (case list_index ys x of Inl e \<Rightarrow> Inl e | Inr i \<Rightarrow> Inr (Suc i)))"

text \<open>
  \<open>s.replace(sub, "")\<close> for a non-empty \<open>sub\<close>: every occurrence of \<open>sub\<close>, found from
  left to right without overlap, is dropped. (With an empty \<open>sub\<close> and an empty
  replacement Python returns \<open>s\<close>, and so does the model.)
\<close>

function str_remove :: "string \<Rightarrow> string \<Rightarrow> string" where
  "str_remove sub [] = []"
| "str_remove sub (c # cs) =
     (if sub \<noteq> [] \<and> take (length sub) (c # cs) = sub
      then str_remove sub (drop (length sub) (c # cs))
      else c # str_remove sub cs)"
  by pat_completeness auto
termination
  by (relation "measure (\<lambda>(sub, s). length s)") auto

text \<open>
  \<open>int(s)\<close> on a string, base 10: surrounding white space is stripped, one sign is
  allowed, and what remains must be decimal digits, where a single underscore may stand
  between two digits. Anything else raises \<open>ValueError\<close>. (The interpreter's limit on the
  number of digits of a conversion is not modelled; no number here has more than two.)
\<close>

definition is_space :: "char \<Rightarrow> bool" where
  "is_space c = ((of_char c :: nat) \<in> set [9, 10, 11, 12, 13, 28, 29, 30, 31, 32, 133, 160])"

definition is_digit :: "char \<Rightarrow> bool" where
  "is_digit c = (48 \<le> (of_char c :: nat) \<and> (of_char c :: nat) \<le> 57)"

definition digit_val :: "char \<Rightarrow> nat" where
  "digit_val c = of_char c - 48"

definition py_strip :: "string \<Rightarrow> string" where
  "py_strip s = rev (dropWhile is_space (rev (dropWhile is_space s)))"

fun digits_acc :: "nat \<Rightarrow> string \<Rightarrow> nat option" where
  "digits_acc acc [] = Some acc"
| "digits_acc acc (c # cs) =
     (if is_digit c then digits_acc (10 * acc + digit_val c) cs
      else if c = CHR ''_'' then
        (case cs of
           [] \<Rightarrow> None
         | d # ds \<Rightarrow> if is_digit d then digits_acc (10 * acc + digit_val d) ds else None)
      else None)"

definition parse_digits :: "string \<Rightarrow> nat option" where
  "parse_digits s =
     (case s of
        [] \<Rightarrow> None
      | c # cs \<Rightarrow> if is_digit c then digits_acc (digit_val c) cs else None)"

definition py_int :: "string \<Rightarrow> error + int" where
  "py_int s =
     (case py_strip s of
        [] \<Rightarrow> Inl ValueError
      | c # cs \<Rightarrow>
          if c = CHR ''-'' then
            (case parse_digits cs of None \<Rightarrow> Inl ValueError | Some n \<Rightarrow> Inr (- int n))
          else if c = CHR ''+'' then
            (case parse_digits cs of None \<Rightarrow> Inl ValueError | Some n \<Rightarrow> Inr (int n))
          else
            (case parse_digits (c # cs) of None \<Rightarrow> Inl ValueError | Some n \<Rightarrow> Inr (int n)))"

text \<open>\<open>f"{n}"\<close> for an integer \<open>n\<close>: its decimal digits, after a minus sign when negative.\<close>

definition digit_char :: "nat \<Rightarrow> char" where
  "digit_char d = char_of (48 + d)"

fun nat_digits :: "nat \<Rightarrow> string" where
  "nat_digits n =
     (if n < 10 then [digit_char n] else nat_digits (n div 10) @ [digit_char (n mod 10)])"

declare nat_digits.simps [simp del]

definition py_str_int :: "int \<Rightarrow> string" where
  "py_str_int i = (if i < 0 then CHR ''-'' # nat_digits (nat (- i)) else nat_digits (nat i))"

subsection \<open>The application state\<close>

record app =
  devices :: pydict
  current_device :: string
  action_count :: int

text \<open>\<open>SmartHomeApp.__init__\<close> (with the \<open>action_count = 0\<close> of \<open>setupUI\<close>).\<close>

definition init_app :: app where
  "init_app =
     \<lparr> devices = [(''Living Room Light'', ''Off''),
                  (''Thermostat'', ''22'' @ degC),
                  (''Security System'', ''Disarmed'')],
       current_device = ''Living Room Light'',
       action_count = 0 \<rparr>"

subsection \<open>The handlers\<close>

text \<open>
  Both handlers begin with the same three lines, which move \<open>current_device\<close> to the next
  key of the dictionary, cyclically:
  \<^verbatim>\<open>
  device_list = list(self.devices.keys())
  current_index = device_list.index(self.current_device)
  self.current_device = device_list[(current_index + 1) % len(device_list)]
  \<close>
\<close>

definition next_device :: "app \<Rightarrow> error + app" where
  "next_device s =
     (let device_list = dict_keys (devices s) in
      case list_index device_list (current_device s) of
        Inl e \<Rightarrow> Inl e
      | Inr current_index \<Rightarrow>
          if length device_list = 0 then Inl ZeroDivisionError
          else Inr (s\<lparr>current_device :=
                        device_list ! ((current_index + 1) mod length device_list)\<rparr>))"

text \<open>
  Both handlers end with the same lines: the counter goes up by one and the text for the
  status label is built from \<open>self.devices[self.current_device]\<close>.
\<close>

definition count_and_show :: "app \<Rightarrow> error + app" where
  "count_and_show s =
     (let s' = s\<lparr>action_count := action_count s + 1\<rparr> in
      case dict_get (devices s') (current_device s') of
        Inl e \<Rightarrow> Inl e
      | Inr v \<Rightarrow> Inr s')"

text \<open>Line 247: \<open>"On" if self.devices["Living Room Light"] == "Off" else "Off"\<close>.\<close>

definition light_flip :: "string \<Rightarrow> string" where
  "light_flip v = (if v = ''Off'' then ''On'' else ''Off'')"

text \<open>
  Line 268: \<open>new_temp = (current_temp + 1) % 30 if current_temp < 30 else 20\<close>. The
  conditional expression binds weaker than \<open>%\<close>, and Python's \<open>%\<close> with a positive
  divisor is the \<open>mod\<close> of HOL on \<open>int\<close>.
\<close>

definition new_temp :: "int \<Rightarrow> int" where
  "new_temp current_temp = (if current_temp < 30 then (current_temp + 1) mod 30 else 20)"

definition toggleLight :: "app \<Rightarrow> error + app" where
  "toggleLight s =
     (case next_device s of
        Inl e \<Rightarrow> Inl e
      | Inr s1 \<Rightarrow>
          if current_device s1 = ''Living Room Light'' then
            (case dict_get (devices s1) ''Living Room Light'' of
               Inl e \<Rightarrow> Inl e
             | Inr v \<Rightarrow>
                 count_and_show
                   (s1\<lparr>devices := dict_set (devices s1) ''Living Room Light'' (light_flip v)\<rparr>))
          else count_and_show s1)"

definition setThermostat :: "app \<Rightarrow> error + app" where
  "setThermostat s =
     (case next_device s of
        Inl e \<Rightarrow> Inl e
      | Inr s1 \<Rightarrow>
          if current_device s1 = ''Thermostat'' then
            (case dict_get (devices s1) ''Thermostat'' of
               Inl e \<Rightarrow> Inl e
             | Inr v \<Rightarrow>
                 (case py_int (str_remove degC v) of
                    Inl e \<Rightarrow> Inl e
                  | Inr current_temp \<Rightarrow>
                      count_and_show
                        (s1\<lparr>devices := dict_set (devices s1) ''Thermostat''
                                         (py_str_int (new_temp current_temp) @ degC)\<rparr>)))
          else count_and_show s1)"

text \<open>A sequence of button presses; an exception ends it.\<close>

datatype action = ToggleLight | SetThermostat

fun step :: "action \<Rightarrow> app \<Rightarrow> error + app" where
  "step ToggleLight s = toggleLight s"
| "step SetThermostat s = setThermostat s"

fun run :: "action list \<Rightarrow> app \<Rightarrow> error + app" where
  "run [] s = Inr s"
| "run (a # as) s = (case step a s of Inl e \<Rightarrow> Inl e | Inr s' \<Rightarrow> run as s')"

text \<open>The cursor of the specification: the position of \<open>current_device\<close> among the keys.\<close>

definition cursor :: "app \<Rightarrow> error + nat" where
  "cursor s = list_index (dict_keys (devices s)) (current_device s)"

subsection \<open>The states the program can reach\<close>

text \<open>
  Every state met below has the three keys of \<open>__init__\<close> in their order, the value
  \<open>"Disarmed"\<close> under the last one and a thermostat value printed from an integer.
  \<open>app_of\<close> builds such a state from the light's value, the temperature, the current
  device and the counter.
\<close>

definition app_of :: "string \<Rightarrow> int \<Rightarrow> string \<Rightarrow> int \<Rightarrow> app" where
  "app_of lv n c k =
     \<lparr> devices = [(''Living Room Light'', lv),
                  (''Thermostat'', py_str_int n @ degC),
                  (''Security System'', ''Disarmed'')],
       current_device = c,
       action_count = k \<rparr>"

definition reachable_form :: "app \<Rightarrow> bool" where
  "reachable_form s \<longleftrightarrow>
     (\<exists>lv n c k. s = app_of lv n c k \<and> (lv = ''Off'' \<or> lv = ''On'') \<and> 0 \<le> n \<and> n < 30 \<and>
        (c = ''Living Room Light'' \<or> c = ''Thermostat'' \<or> c = ''Security System''))"

section \<open>Lists, dictionaries and strings\<close>

lemma list_index_Inr: "list_index xs x = Inr i \<Longrightarrow> i < length xs \<and> xs ! i = x"
  by (induction xs arbitrary: i) (auto split: if_splits sum.splits)

lemma list_index_mem: "x \<in> set xs \<Longrightarrow> \<exists>i. list_index xs x = Inr i"
  by (induction xs) auto

lemma list_index_nth: "distinct xs \<Longrightarrow> i < length xs \<Longrightarrow> list_index xs (xs ! i) = Inr i"
proof (induction xs arbitrary: i)
  case Nil
  then show ?case by simp
next
  case (Cons y ys)
  show ?case
  proof (cases i)
    case 0
    then show ?thesis by simp
  next
    case (Suc j)
    with Cons.prems have "j < length ys" "ys ! j \<in> set ys" "y \<notin> set ys" "distinct ys"
      by auto
    with Cons.IH [of j] Suc show ?thesis by auto
  qed
qed

lemma dict_keys_set: "k \<in> set (dict_keys d) \<Longrightarrow> dict_keys (dict_set d k v) = dict_keys d"
  by (induction d) (force simp: dict_keys_def)+

lemma dict_get_set_same: "dict_get (dict_set d k v) k = Inr v"
  by (induction d) (auto simp: dict_get_def)

lemma dict_get_set_other: "k' \<noteq> k \<Longrightarrow> dict_get (dict_set d k v) k' = dict_get d k'"
  by (induction d) (auto simp: dict_get_def)

lemma dict_get_Inr_key: "dict_get d k = Inr v \<Longrightarrow> k \<in> set (dict_keys d)"
  by (auto simp: dict_get_def dict_keys_def split: option.splits dest: map_of_SomeD intro: rev_image_eqI)

lemma next_device_Inr:
  assumes "next_device s = Inr s1"
  shows "devices s1 = devices s" and "action_count s1 = action_count s"
    and "current_device s1 \<in> set (dict_keys (devices s))"
    and "\<exists>i. cursor s = Inr i \<and> i < length (dict_keys (devices s)) \<and>
           current_device s1 = dict_keys (devices s) ! ((i + 1) mod length (dict_keys (devices s)))"
  using assms
  by (auto simp: next_device_def cursor_def Let_def split: sum.splits if_splits dest: list_index_Inr)

lemma next_device_cursor:
  assumes "next_device s = Inr s1" and "distinct (dict_keys (devices s))" and "cursor s = Inr i"
  shows "cursor s1 = Inr ((i + 1) mod length (dict_keys (devices s)))"
proof -
  from next_device_Inr(4) [OF assms(1)] assms(3)
  have i: "i < length (dict_keys (devices s))"
    and c: "current_device s1 = dict_keys (devices s) ! ((i + 1) mod length (dict_keys (devices s)))"
    by auto
  from i have "0 < length (dict_keys (devices s))"
    by auto
  then have "(i + 1) mod length (dict_keys (devices s)) < length (dict_keys (devices s))"
    by (rule mod_less_divisor)
  with assms(2) c next_device_Inr(1) [OF assms(1)] show ?thesis
    by (simp add: cursor_def list_index_nth)
qed

lemma count_and_show_Inr:
  "count_and_show s = Inr s' \<Longrightarrow> s' = s\<lparr>action_count := action_count s + 1\<rparr>"
  by (auto simp: count_and_show_def Let_def split: sum.splits)

lemma digit_val_char: "d < 10 \<Longrightarrow> digit_val (digit_char d) = d"
  by (simp add: digit_val_def digit_char_def)

lemma is_digit_char: "d < 10 \<Longrightarrow> is_digit (digit_char d)"
  by (simp add: is_digit_def digit_char_def)

lemma nat_digits_all: "list_all is_digit (nat_digits n)"
proof (induction n rule: nat_digits.induct)
  case (1 n)
  then show ?case
    by (subst nat_digits.simps) (simp add: is_digit_char)
qed

lemma nat_digits_nonempty: "nat_digits n \<noteq> []"
  by (subst nat_digits.simps) simp

lemma digits_acc_foldl:
  "list_all is_digit ds \<Longrightarrow>
   digits_acc acc ds = Some (foldl (\<lambda>a c. 10 * a + digit_val c) acc ds)"
  by (induction ds arbitrary: acc) auto

lemma parse_digits_foldl:
  "list_all is_digit ds \<Longrightarrow> ds \<noteq> [] \<Longrightarrow>
   parse_digits ds = Some (foldl (\<lambda>a c. 10 * a + digit_val c) 0 ds)"
  by (cases ds) (auto simp: parse_digits_def digits_acc_foldl)

lemma foldl_nat_digits: "foldl (\<lambda>a c. 10 * a + digit_val c) 0 (nat_digits n) = n"
proof (induction n rule: nat_digits.induct)
  case (1 n)
  then show ?case
    by (subst nat_digits.simps) (simp add: digit_val_char)
qed

lemma parse_nat_digits: "parse_digits (nat_digits n) = Some n"
  by (simp add: parse_digits_foldl nat_digits_all nat_digits_nonempty foldl_nat_digits)

lemma digit_not_space: "is_digit c \<Longrightarrow> \<not> is_space c"
  by (auto simp: is_digit_def is_space_def)

lemma digit_not_sign: "is_digit c \<Longrightarrow> c \<noteq> CHR ''-'' \<and> c \<noteq> CHR ''+'' \<and> c \<noteq> degree_sign"
  by (auto simp: is_digit_def degree_sign_def)

lemma py_strip_digits: "list_all is_digit ds \<Longrightarrow> py_strip ds = ds"
proof -
  assume a: "list_all is_digit ds"
  have 1: "dropWhile is_space ds = ds"
    using a by (cases ds) (auto simp: digit_not_space)
  have "list_all is_digit (rev ds)" using a by (simp add: list_all_iff)
  then have 2: "dropWhile is_space (rev ds) = rev ds"
    by (cases "rev ds") (auto simp: digit_not_space)
  show ?thesis by (simp add: py_strip_def 1 2)
qed

lemma py_int_nat_digits: "py_int (nat_digits n) = Inr (int n)"
proof -
  obtain c cs where e: "nat_digits n = c # cs"
    using nat_digits_nonempty [of n] by (cases "nat_digits n") auto
  with nat_digits_all [of n] have "is_digit c" by simp
  then have "c \<noteq> CHR ''-''" "c \<noteq> CHR ''+''" using digit_not_sign by auto
  moreover have "py_strip (nat_digits n) = c # cs"
    using py_strip_digits [OF nat_digits_all, of n] e by simp
  moreover have "parse_digits (c # cs) = Some n"
    using parse_nat_digits [of n] e by simp
  ultimately show ?thesis by (simp add: py_int_def)
qed

lemma str_remove_digits: "list_all is_digit ds \<Longrightarrow> str_remove degC (ds @ degC) = ds"
proof (induction ds)
  case Nil
  show ?case by (simp add: degC_def)
next
  case (Cons c cs)
  then have "c \<noteq> degree_sign" using digit_not_sign by auto
  with Cons show ?case by (simp add: degC_def)
qed

lemma parse_temp: "0 \<le> n \<Longrightarrow> py_int (str_remove degC (py_str_int n @ degC)) = Inr n"
  by (simp add: py_str_int_def str_remove_digits nat_digits_all py_int_nat_digits)

lemma new_temp_range: "0 \<le> new_temp t \<and> new_temp t < 30"
  by (simp add: new_temp_def)

lemma new_temp_neq: "new_temp t \<noteq> t"
  unfolding new_temp_def by presburger




section \<open>One call, from any state\<close>

lemma toggleLight_Inr:
  assumes "toggleLight s = Inr s'"
  shows "\<exists>s1. next_device s = Inr s1 \<and> current_device s' = current_device s1 \<and>
           action_count s' = action_count s + 1 \<and>
           (if current_device s1 = ''Living Room Light''
            then \<exists>v. dict_get (devices s) ''Living Room Light'' = Inr v \<and>
                     devices s' = dict_set (devices s) ''Living Room Light'' (light_flip v)
            else devices s' = devices s)"
proof -
  from assms obtain s1 where n: "next_device s = Inr s1"
    by (auto simp: toggleLight_def split: sum.splits)
  note d = next_device_Inr(1,2) [OF n]
  show ?thesis
  proof (cases "current_device s1 = ''Living Room Light''")
    case True
    with assms n obtain v where v: "dict_get (devices s1) ''Living Room Light'' = Inr v"
      and c: "count_and_show (s1\<lparr>devices := dict_set (devices s1) ''Living Room Light'' (light_flip v)\<rparr>) = Inr s'"
      by (auto simp: toggleLight_def split: sum.splits)
    from count_and_show_Inr [OF c] True v d n show ?thesis by auto
  next
    case False
    with assms n have "count_and_show s1 = Inr s'"
      by (auto simp: toggleLight_def split: sum.splits)
    from count_and_show_Inr [OF this] False d n show ?thesis by auto
  qed
qed

lemma setThermostat_Inr:
  assumes "setThermostat s = Inr s'"
  shows "\<exists>s1. next_device s = Inr s1 \<and> current_device s' = current_device s1 \<and>
           action_count s' = action_count s + 1 \<and>
           (if current_device s1 = ''Thermostat''
            then \<exists>v t. dict_get (devices s) ''Thermostat'' = Inr v \<and>
                     py_int (str_remove degC v) = Inr t \<and>
                     devices s' = dict_set (devices s) ''Thermostat'' (py_str_int (new_temp t) @ degC)
            else devices s' = devices s)"
proof -
  from assms obtain s1 where n: "next_device s = Inr s1"
    by (auto simp: setThermostat_def split: sum.splits)
  note d = next_device_Inr(1,2) [OF n]
  show ?thesis
  proof (cases "current_device s1 = ''Thermostat''")
    case True
    with assms n obtain v t where v: "dict_get (devices s1) ''Thermostat'' = Inr v"
      and t: "py_int (str_remove degC v) = Inr t"
      and c: "count_and_show (s1\<lparr>devices := dict_set (devices s1) ''Thermostat'' (py_str_int (new_temp t) @ degC)\<rparr>) = Inr s'"
      by (auto simp: setThermostat_def split: sum.splits)
    from count_and_show_Inr [OF c] True v t d n show ?thesis by auto
  next
    case False
    with assms n have "count_and_show s1 = Inr s'"
      by (auto simp: setThermostat_def split: sum.splits)
    from count_and_show_Inr [OF this] False d n show ?thesis by auto
  qed
qed

lemma step_keys: "step a s = Inr s' \<Longrightarrow> dict_keys (devices s') = dict_keys (devices s)"
proof (cases a)
  case ToggleLight
  assume "step a s = Inr s'"
  with ToggleLight have "toggleLight s = Inr s'" by simp
  from toggleLight_Inr [OF this] show ?thesis
    by (auto split: if_splits dest: dict_get_Inr_key simp: dict_keys_set)
next
  case SetThermostat
  assume "step a s = Inr s'"
  with SetThermostat have "setThermostat s = Inr s'" by simp
  from setThermostat_Inr [OF this] show ?thesis
    by (auto split: if_splits dest: dict_get_Inr_key simp: dict_keys_set)
qed

lemma step_count: "step a s = Inr s' \<Longrightarrow> action_count s' = action_count s + 1"
  by (cases a) (auto dest: toggleLight_Inr setThermostat_Inr)

lemma step_next: "step a s = Inr s' \<Longrightarrow> \<exists>s1. next_device s = Inr s1 \<and> current_device s' = current_device s1"
  by (cases a) (auto dest: toggleLight_Inr setThermostat_Inr)

lemma step_cursor:
  assumes "step a s = Inr s'" and "distinct (dict_keys (devices s))" and "cursor s = Inr i"
  shows "cursor s' = Inr ((i + 1) mod length (dict_keys (devices s)))"
proof -
  from step_next [OF assms(1)] obtain s1 where n: "next_device s = Inr s1"
    and c: "current_device s' = current_device s1" by auto
  from next_device_cursor [OF n assms(2,3)] c step_keys [OF assms(1)] next_device_Inr(1) [OF n]
  show ?thesis by (simp add: cursor_def)
qed

section \<open>Sequences of calls, from any state\<close>

lemma run_keys: "run acts s = Inr s' \<Longrightarrow> dict_keys (devices s') = dict_keys (devices s)"
proof (induction acts arbitrary: s)
  case Nil
  then show ?case by simp
next
  case (Cons a acts)
  then obtain s1 where 1: "step a s = Inr s1" and 2: "run acts s1 = Inr s'"
    by (auto split: sum.splits)
  from Cons.IH [OF 2] step_keys [OF 1] show ?case by simp
qed

lemma run_count: "run acts s = Inr s' \<Longrightarrow> action_count s' = action_count s + int (length acts)"
proof (induction acts arbitrary: s)
  case Nil
  then show ?case by simp
next
  case (Cons a acts)
  then obtain s1 where 1: "step a s = Inr s1" and 2: "run acts s1 = Inr s'"
    by (auto split: sum.splits)
  from Cons.IH [OF 2] step_count [OF 1] show ?case by simp
qed

lemma run_cursor:
  "run acts s = Inr s' \<Longrightarrow> distinct (dict_keys (devices s)) \<Longrightarrow> cursor s = Inr i \<Longrightarrow>
   cursor s' = Inr ((i + length acts) mod length (dict_keys (devices s)))"
proof (induction acts arbitrary: s i)
  case Nil
  then have "i < length (dict_keys (devices s))"
    by (auto simp: cursor_def dest: list_index_Inr)
  with Nil show ?case by simp
next
  case (Cons a acts)
  then obtain s1 where 1: "step a s = Inr s1" and 2: "run acts s1 = Inr s'"
    by (auto split: sum.splits)
  let ?n = "length (dict_keys (devices s))"
  have k: "dict_keys (devices s1) = dict_keys (devices s)" by (rule step_keys [OF 1])
  have c: "cursor s1 = Inr ((i + 1) mod ?n)" by (rule step_cursor [OF 1 Cons.prems(2,3)])
  from Cons.IH [OF 2 _ c] k Cons.prems(2)
  have "cursor s' = Inr (((i + 1) mod ?n + length acts) mod ?n)" by simp
  also have "((i + 1) mod ?n + length acts) mod ?n = (i + length (a # acts)) mod ?n"
    by (simp add: mod_add_left_eq)
  finally show ?case .
qed

section \<open>Calls on the reachable states\<close>

lemma next_device_app_of:
  "next_device (app_of lv n ''Living Room Light'' k) = Inr (app_of lv n ''Thermostat'' k)"
  "next_device (app_of lv n ''Thermostat'' k) = Inr (app_of lv n ''Security System'' k)"
  "next_device (app_of lv n ''Security System'' k) = Inr (app_of lv n ''Living Room Light'' k)"
  by (simp_all add: next_device_def app_of_def dict_keys_def)

lemma count_and_show_app_of:
  "c = ''Living Room Light'' \<or> c = ''Thermostat'' \<or> c = ''Security System'' \<Longrightarrow>
   count_and_show (app_of lv n c k) = Inr (app_of lv n c (k + 1))"
  by (auto simp: count_and_show_def app_of_def dict_get_def)

lemma toggleLight_app_of:
  "toggleLight (app_of lv n ''Living Room Light'' k) = Inr (app_of lv n ''Thermostat'' (k + 1))"
  "toggleLight (app_of lv n ''Thermostat'' k) = Inr (app_of lv n ''Security System'' (k + 1))"
  "toggleLight (app_of lv n ''Security System'' k) =
     Inr (app_of (light_flip lv) n ''Living Room Light'' (k + 1))"
proof -
  show "toggleLight (app_of lv n ''Living Room Light'' k) = Inr (app_of lv n ''Thermostat'' (k + 1))"
    by (simp add: toggleLight_def next_device_app_of count_and_show_app_of)
       (simp add: app_of_def)
  show "toggleLight (app_of lv n ''Thermostat'' k) = Inr (app_of lv n ''Security System'' (k + 1))"
    by (simp add: toggleLight_def next_device_app_of count_and_show_app_of)
       (simp add: app_of_def)
  have "(app_of lv n ''Living Room Light'' k)
          \<lparr>devices := dict_set (devices (app_of lv n ''Living Room Light'' k))
                       ''Living Room Light'' (light_flip lv)\<rparr>
        = app_of (light_flip lv) n ''Living Room Light'' k"
    by (simp add: app_of_def)
  moreover have "dict_get (devices (app_of lv n ''Living Room Light'' k)) ''Living Room Light'' = Inr lv"
    by (simp add: app_of_def dict_get_def)
  moreover have "current_device (app_of lv n ''Living Room Light'' k) = ''Living Room Light''"
    by (simp add: app_of_def)
  ultimately show "toggleLight (app_of lv n ''Security System'' k) =
     Inr (app_of (light_flip lv) n ''Living Room Light'' (k + 1))"
    by (simp add: toggleLight_def next_device_app_of count_and_show_app_of)
qed

lemma setThermostat_app_of:
  "0 \<le> n \<Longrightarrow> setThermostat (app_of lv n ''Living Room Light'' k) =
     Inr (app_of lv (new_temp n) ''Thermostat'' (k + 1))"
  "setThermostat (app_of lv n ''Thermostat'' k) = Inr (app_of lv n ''Security System'' (k + 1))"
  "setThermostat (app_of lv n ''Security System'' k) = Inr (app_of lv n ''Living Room Light'' (k + 1))"
proof -
  show "setThermostat (app_of lv n ''Thermostat'' k) = Inr (app_of lv n ''Security System'' (k + 1))"
    by (simp add: setThermostat_def next_device_app_of count_and_show_app_of)
       (simp add: app_of_def)
  show "setThermostat (app_of lv n ''Security System'' k) = Inr (app_of lv n ''Living Room Light'' (k + 1))"
    by (simp add: setThermostat_def next_device_app_of count_and_show_app_of)
       (simp add: app_of_def)
  assume n: "0 \<le> n"
  have "(app_of lv n ''Thermostat'' k)
          \<lparr>devices := dict_set (devices (app_of lv n ''Thermostat'' k))
                       ''Thermostat'' (py_str_int (new_temp n) @ degC)\<rparr>
        = app_of lv (new_temp n) ''Thermostat'' k"
    by (simp add: app_of_def)
  moreover have "dict_get (devices (app_of lv n ''Thermostat'' k)) ''Thermostat'' = Inr (py_str_int n @ degC)"
    by (simp add: app_of_def dict_get_def)
  moreover have "current_device (app_of lv n ''Thermostat'' k) = ''Thermostat''"
    by (simp add: app_of_def)
  ultimately show "setThermostat (app_of lv n ''Living Room Light'' k) =
     Inr (app_of lv (new_temp n) ''Thermostat'' (k + 1))"
    using n by (simp add: setThermostat_def next_device_app_of count_and_show_app_of parse_temp)
qed

lemma init_app_of: "init_app = app_of ''Off'' 22 ''Living Room Light'' 0"
proof -
  have "py_str_int 22 = ''22''" by code_simp
  then show ?thesis by (simp add: init_app_def app_of_def)
qed

lemma reachable_form_init: "reachable_form init_app"
  unfolding reachable_form_def using init_app_of by fastforce

lemma reachable_form_step: "reachable_form s \<Longrightarrow> \<exists>s'. step a s = Inr s' \<and> reachable_form s'"
proof -
  assume "reachable_form s"
  then obtain lv n c k where s: "s = app_of lv n c k" and lv: "lv = ''Off'' \<or> lv = ''On''"
    and n: "0 \<le> n" "n < 30"
    and c: "c = ''Living Room Light'' \<or> c = ''Thermostat'' \<or> c = ''Security System''"
    unfolding reachable_form_def by blast
  have f: "light_flip lv = ''Off'' \<or> light_flip lv = ''On''" by (simp add: light_flip_def)
  show ?thesis
  proof (cases a)
    case ToggleLight
    from c show ?thesis
    proof (elim disjE)
      assume "c = ''Living Room Light''"
      with s ToggleLight lv n show ?thesis
        unfolding reachable_form_def by (simp add: toggleLight_app_of) blast
    next
      assume "c = ''Thermostat''"
      with s ToggleLight lv n show ?thesis
        unfolding reachable_form_def by (simp add: toggleLight_app_of) blast
    next
      assume "c = ''Security System''"
      with s ToggleLight f n show ?thesis
        unfolding reachable_form_def by (simp add: toggleLight_app_of) blast
    qed
  next
    case SetThermostat
    from c show ?thesis
    proof (elim disjE)
      assume "c = ''Living Room Light''"
      with s SetThermostat lv n new_temp_range [of n] show ?thesis
        unfolding reachable_form_def by (simp add: setThermostat_app_of) blast
    next
      assume "c = ''Thermostat''"
      with s SetThermostat lv n show ?thesis
        unfolding reachable_form_def by (simp add: setThermostat_app_of) blast
    next
      assume "c = ''Security System''"
      with s SetThermostat lv n show ?thesis
        unfolding reachable_form_def by (simp add: setThermostat_app_of) blast
    qed
  qed
qed

lemma reachable_form_run: "reachable_form s \<Longrightarrow> \<exists>s'. run acts s = Inr s' \<and> reachable_form s'"
proof (induction acts arbitrary: s)
  case Nil
  then show ?case by simp
next
  case (Cons a acts)
  from reachable_form_step [OF Cons.prems, of a] obtain s1
    where 1: "step a s = Inr s1" and 2: "reachable_form s1" by blast
  from Cons.IH [OF 2] 1 show ?case by simp
qed

lemma run_init: "\<exists>s'. run acts init_app = Inr s' \<and> reachable_form s'"
  by (rule reachable_form_run [OF reachable_form_init])

section \<open>The claims\<close>

text \<open>
  C1 (the thermostat steps by +1 inside [20, 30] and resets to 20 after 30; from 22 the
  values are 22, 23, ..., 30, 20, 21, ...). The code does not do this: line 268 computes
  \<open>(current_temp + 1) % 30\<close> below 30, so 29 is followed by 0, not by 30. From the initial
  state the thermostat is written on the calls 1, 4, 7, ... of a run of \<open>setThermostat\<close>
  calls; the 22nd call writes \<open>0\<close>, a value outside [20, 30].
\<close>

theorem C1_thermostat_leaves_range:
  "new_temp 29 = 0 \<and>
   run (replicate 19 SetThermostat) init_app =
     Inr \<lparr> devices = [(''Living Room Light'', ''Off''),
                       (''Thermostat'', ''29'' @ degC),
                       (''Security System'', ''Disarmed'')],
            current_device = ''Thermostat'', action_count = 19 \<rparr> \<and>
   run (replicate 22 SetThermostat) init_app =
     Inr \<lparr> devices = [(''Living Room Light'', ''Off''),
                       (''Thermostat'', ''0'' @ degC),
                       (''Security System'', ''Disarmed'')],
            current_device = ''Thermostat'', action_count = 22 \<rparr>"
  by code_simp

text \<open>
  C4 (the action counter after N calls equals N). From any state a run that returns has
  added the number of calls to the counter, and from the initial state, where the counter
  is 0, every run returns.
\<close>

theorem C4_action_count:
  "(run acts s = Inr s' \<longrightarrow> action_count s' = action_count s + int (length acts)) \<and>
   (\<exists>s'. run acts init_app = Inr s' \<and> action_count s' = int (length acts))"
proof
  show "run acts s = Inr s' \<longrightarrow> action_count s' = action_count s + int (length acts)"
    by (simp add: run_count)
  from run_init [of acts] obtain s1 where r: "run acts init_app = Inr s1" by blast
  from run_count [OF r] have "action_count s1 = int (length acts)"
    by (simp add: init_app_def)
  with r show "\<exists>s'. run acts init_app = Inr s' \<and> action_count s' = int (length acts)"
    by blast
qed

theorem C4_action_count_witness:
  "run [ToggleLight, SetThermostat] init_app =
     Inr \<lparr> devices = [(''Living Room Light'', ''Off''),
                       (''Thermostat'', ''22'' @ degC),
                       (''Security System'', ''Disarmed'')],
            current_device = ''Security System'', action_count = 2 \<rparr> \<and>
   action_count \<lparr> devices = [(''Living Room Light'', ''Off''),
                       (''Thermostat'', ''22'' @ degC),
                       (''Security System'', ''Disarmed'')],
            current_device = ''Security System'', action_count = 2 \<rparr>
     = action_count init_app + int (length [ToggleLight, SetThermostat])"
proof -
  have h: "run [ToggleLight, SetThermostat] init_app =
     Inr \<lparr> devices = [(''Living Room Light'', ''Off''),
                       (''Thermostat'', ''22'' @ degC),
                       (''Security System'', ''Disarmed'')],
            current_device = ''Security System'', action_count = 2 \<rparr>"
    by code_simp
  from C4_action_count [of "[ToggleLight, SetThermostat]" init_app] h show ?thesis
    by blast
qed

text \<open>
  C3 (after N calls, in any order of the two actions, the cursor is
  (initialCursor + N) mod registryLength). From any dictionary (its keys are distinct) and
  any cursor a run that returns leaves the cursor there, and from the initial state, where
  the cursor is 0 and the registry has 3 devices, every run returns.
\<close>

theorem C3_cursor_after_calls:
  "(distinct (dict_keys (devices s)) \<and> cursor s = Inr i \<and> run acts s = Inr s' \<longrightarrow>
      cursor s' = Inr ((i + length acts) mod length (dict_keys (devices s)))) \<and>
   (\<exists>s'. run acts init_app = Inr s' \<and> cursor s' = Inr (length acts mod 3))"
proof
  show "distinct (dict_keys (devices s)) \<and> cursor s = Inr i \<and> run acts s = Inr s' \<longrightarrow>
      cursor s' = Inr ((i + length acts) mod length (dict_keys (devices s)))"
    using run_cursor by blast
  from run_init [of acts] obtain s1 where r: "run acts init_app = Inr s1" by blast
  have "distinct (dict_keys (devices init_app))" and "cursor init_app = Inr 0"
    by (simp_all add: init_app_def dict_keys_def cursor_def)
  from run_cursor [OF r this] have "cursor s1 = Inr (length acts mod 3)"
    by (simp add: init_app_def dict_keys_def)
  with r show "\<exists>s'. run acts init_app = Inr s' \<and> cursor s' = Inr (length acts mod 3)"
    by blast
qed

theorem C3_cursor_after_calls_witness:
  "distinct (dict_keys (devices init_app)) \<and> cursor init_app = Inr 0 \<and>
   run [ToggleLight, SetThermostat, SetThermostat, ToggleLight] init_app =
     Inr (app_of ''Off'' 22 ''Thermostat'' 4) \<and>
   cursor (app_of ''Off'' 22 ''Thermostat'' 4) = Inr 1"
proof -
  have d: "distinct (dict_keys (devices init_app))"
    by (simp add: init_app_def dict_keys_def)
  have c: "cursor init_app = Inr 0"
    by (simp add: init_app_def dict_keys_def cursor_def)
  have r: "run [ToggleLight, SetThermostat, SetThermostat, ToggleLight] init_app =
     Inr (app_of ''Off'' 22 ''Thermostat'' 4)"
    by (simp add: init_app_of toggleLight_app_of setThermostat_app_of)
  from C3_cursor_after_calls
    [of init_app 0 "[ToggleLight, SetThermostat, SetThermostat, ToggleLight]"
        "app_of ''Off'' 22 ''Thermostat'' 4"] d c r
  have "cursor (app_of ''Off'' 22 ''Thermostat'' 4) = Inr 1"
    by (simp add: init_app_def dict_keys_def)
  with d c r show ?thesis by blast
qed

text \<open>
  C5 (the names of the registry, their order and the registry's length are unchanged by
  every sequence of \<open>toggleLight\<close> and \<open>setThermostat\<close> calls). From any state a run that
  returns leaves the list of keys as it was, and from the initial state every run returns
  with the three keys of \<open>__init__\<close>.
\<close>

theorem C5_registry_keys_unchanged:
  "(run acts s = Inr s' \<longrightarrow>
      dict_keys (devices s') = dict_keys (devices s) \<and>
      length (devices s') = length (devices s)) \<and>
   (\<exists>s'. run acts init_app = Inr s' \<and>
      dict_keys (devices s') = [''Living Room Light'', ''Thermostat'', ''Security System''])"
proof
  have "length (devices s') = length (devices s)"
    if "dict_keys (devices s') = dict_keys (devices s)"
    using that unfolding dict_keys_def by (rule map_eq_imp_length_eq)
  then show "run acts s = Inr s' \<longrightarrow>
      dict_keys (devices s') = dict_keys (devices s) \<and> length (devices s') = length (devices s)"
    using run_keys by blast
  from run_init [of acts] obtain s1 where r: "run acts init_app = Inr s1" by blast
  from run_keys [OF r]
  have "dict_keys (devices s1) = [''Living Room Light'', ''Thermostat'', ''Security System'']"
    by (simp add: init_app_def dict_keys_def)
  with r show "\<exists>s'. run acts init_app = Inr s' \<and>
      dict_keys (devices s') = [''Living Room Light'', ''Thermostat'', ''Security System'']"
    by blast
qed

theorem C5_registry_keys_unchanged_witness:
  "run [SetThermostat, ToggleLight, ToggleLight] (app_of ''On'' 29 ''Living Room Light'' 7) =
     Inr (app_of ''Off'' 0 ''Living Room Light'' 10) \<and>
   dict_keys (devices (app_of ''Off'' 0 ''Living Room Light'' 10)) =
     dict_keys (devices (app_of ''On'' 29 ''Living Room Light'' 7)) \<and>
   length (devices (app_of ''Off'' 0 ''Living Room Light'' 10)) =
     length (devices (app_of ''On'' 29 ''Living Room Light'' 7))"
proof -
  have r: "run [SetThermostat, ToggleLight, ToggleLight] (app_of ''On'' 29 ''Living Room Light'' 7) =
     Inr (app_of ''Off'' 0 ''Living Room Light'' 10)"
    by (simp add: toggleLight_app_of setThermostat_app_of new_temp_def light_flip_def)
  from C5_registry_keys_unchanged
    [of "[SetThermostat, ToggleLight, ToggleLight]" "app_of ''On'' 29 ''Living Room Light'' 7"
        "app_of ''Off'' 0 ''Living Room Light'' 10"] r
  show ?thesis by blast
qed

text \<open>
  C7 (after initialisation and after every sequence of calls the current device is a key
  of the registry, so the \<open>index\<close> lookup at the start of a handler succeeds, and exactly
  one device is current). Every run from the initial state, the empty one included,
  returns a state whose current device is a key, found by \<open>index\<close> at a position inside
  the list, and equal to exactly one of the keys.
\<close>

theorem C7_current_device_is_a_key:
  "\<exists>s i. run acts init_app = Inr s \<and>
      current_device s \<in> set (dict_keys (devices s)) \<and>
      list_index (dict_keys (devices s)) (current_device s) = Inr i \<and>
      i < length (dict_keys (devices s)) \<and>
      length (filter (\<lambda>k. k = current_device s) (dict_keys (devices s))) = 1"
proof -
  from run_init [of acts] obtain s where r: "run acts init_app = Inr s"
    and f: "reachable_form s" by blast
  from f obtain lv n c k where s: "s = app_of lv n c k"
    and c: "c = ''Living Room Light'' \<or> c = ''Thermostat'' \<or> c = ''Security System''"
    unfolding reachable_form_def by blast
  from c have m: "current_device s \<in> set (dict_keys (devices s))"
    by (auto simp: s app_of_def dict_keys_def)
  from list_index_mem [OF m] obtain i
    where i: "list_index (dict_keys (devices s)) (current_device s) = Inr i" by blast
  from c have "length (filter (\<lambda>k. k = current_device s) (dict_keys (devices s))) = 1"
    by (auto simp: s app_of_def dict_keys_def)
  with r m i list_index_Inr [OF i] show ?thesis by blast
qed

text \<open>
  C8 (the value of the Security System stays \<open>"Disarmed"\<close> under every sequence of
  \<open>toggleLight\<close> and \<open>setThermostat\<close> calls).
\<close>

theorem C8_security_system_stays_disarmed:
  "\<exists>s. run acts init_app = Inr s \<and>
      dict_get (devices s) ''Security System'' = Inr ''Disarmed''"
proof -
  from run_init [of acts] obtain s where r: "run acts init_app = Inr s"
    and f: "reachable_form s" by blast
  from f have "dict_get (devices s) ''Security System'' = Inr ''Disarmed''"
    unfolding reachable_form_def by (auto simp: app_of_def dict_get_def)
  with r show ?thesis by blast
qed

text \<open>
  C10 (the thermostat's value is always a decimal integer followed by the degree sign and
  \<open>C\<close>, so the parse in \<open>setThermostat\<close> never fails on a reachable state). After every run
  from the initial state the value is the print of a non-negative integer followed by
  that suffix, the handler's parse of it returns that integer, and \<open>setThermostat\<close>
  returns.
\<close>

theorem C10_thermostat_value_parses:
  "\<exists>s v n. run acts init_app = Inr s \<and>
      dict_get (devices s) ''Thermostat'' = Inr v \<and>
      v = py_str_int n @ degC \<and> 0 \<le> n \<and> list_all is_digit (py_str_int n) \<and>
      py_int (str_remove degC v) = Inr n \<and>
      (\<exists>s'. setThermostat s = Inr s')"
proof -
  from run_init [of acts] obtain s where r: "run acts init_app = Inr s"
    and f: "reachable_form s" by blast
  from f obtain lv n c k where s: "s = app_of lv n c k" and n: "0 \<le> n"
    unfolding reachable_form_def by blast
  have v: "dict_get (devices s) ''Thermostat'' = Inr (py_str_int n @ degC)"
    by (simp add: s app_of_def dict_get_def)
  from n have d: "list_all is_digit (py_str_int n)"
    by (simp add: py_str_int_def nat_digits_all)
  from reachable_form_step [OF f, of SetThermostat]
  have t: "\<exists>s'. setThermostat s = Inr s'" by auto
  from r v n d parse_temp [OF n] t show ?thesis by blast
qed

text \<open>
  C2 (a call changes a device's value if and only if the device the cursor lands on has
  the action's target name; three \<open>toggleLight\<close> calls from the initial state change
  nothing on the calls 1 and 2 and flip the light on call 3; a call changes at most one
  device's value). In any state, when a handler returns, the value of the device it landed
  on has changed exactly when that device is the handler's target, and the value of every
  other device is as before.
\<close>

theorem C2_mutation_iff_cursor_lands_on_target:
  "(toggleLight s = Inr s' \<longrightarrow>
      (dict_get (devices s') (current_device s') \<noteq> dict_get (devices s) (current_device s')
         \<longleftrightarrow> current_device s' = ''Living Room Light'') \<and>
      (\<forall>k. k \<noteq> current_device s' \<longrightarrow> dict_get (devices s') k = dict_get (devices s) k)) \<and>
   (setThermostat u = Inr u' \<longrightarrow>
      (dict_get (devices u') (current_device u') \<noteq> dict_get (devices u) (current_device u')
         \<longleftrightarrow> current_device u' = ''Thermostat'') \<and>
      (\<forall>k. k \<noteq> current_device u' \<longrightarrow> dict_get (devices u') k = dict_get (devices u) k)) \<and>
   run [ToggleLight] init_app =
     Inr \<lparr> devices = [(''Living Room Light'', ''Off''),
                       (''Thermostat'', ''22'' @ degC),
                       (''Security System'', ''Disarmed'')],
            current_device = ''Thermostat'', action_count = 1 \<rparr> \<and>
   run [ToggleLight, ToggleLight] init_app =
     Inr \<lparr> devices = [(''Living Room Light'', ''Off''),
                       (''Thermostat'', ''22'' @ degC),
                       (''Security System'', ''Disarmed'')],
            current_device = ''Security System'', action_count = 2 \<rparr> \<and>
   run [ToggleLight, ToggleLight, ToggleLight] init_app =
     Inr \<lparr> devices = [(''Living Room Light'', ''On''),
                       (''Thermostat'', ''22'' @ degC),
                       (''Security System'', ''Disarmed'')],
            current_device = ''Living Room Light'', action_count = 3 \<rparr>"
proof (intro conjI impI)
  assume a: "toggleLight s = Inr s'"
  from toggleLight_Inr [OF a] obtain s1 :: app where c: "current_device s' = current_device s1"
    and e: "if current_device s1 = ''Living Room Light''
            then \<exists>v. dict_get (devices s) ''Living Room Light'' = Inr v \<and>
                     devices s' = dict_set (devices s) ''Living Room Light'' (light_flip v)
            else devices s' = devices s"
    by blast
  have f: "light_flip v \<noteq> v" for v by (simp add: light_flip_def)
  show "(dict_get (devices s') (current_device s') \<noteq> dict_get (devices s) (current_device s'))
          = (current_device s' = ''Living Room Light'')"
    using c e f by (auto simp: dict_get_set_same split: if_splits)
  show "\<forall>k. k \<noteq> current_device s' \<longrightarrow> dict_get (devices s') k = dict_get (devices s) k"
    using c e by (auto simp: dict_get_set_other split: if_splits)
next
  assume a: "setThermostat u = Inr u'"
  from setThermostat_Inr [OF a] obtain s1 :: app where c: "current_device u' = current_device s1"
    and e: "if current_device s1 = ''Thermostat''
            then \<exists>v t. dict_get (devices u) ''Thermostat'' = Inr v \<and>
                     py_int (str_remove degC v) = Inr t \<and>
                     devices u' = dict_set (devices u) ''Thermostat'' (py_str_int (new_temp t) @ degC)
            else devices u' = devices u"
    by blast
  have f: "py_str_int (new_temp t) @ degC \<noteq> v" if "py_int (str_remove degC v) = Inr t" for v t
  proof
    assume "py_str_int (new_temp t) @ degC = v"
    with that parse_temp [of "new_temp t"] new_temp_range [of t] have "new_temp t = t"
      by auto
    with new_temp_neq [of t] show False by simp
  qed
  show "(dict_get (devices u') (current_device u') \<noteq> dict_get (devices u) (current_device u'))
          = (current_device u' = ''Thermostat'')"
    using c e f by (auto simp: dict_get_set_same split: if_splits)
  show "\<forall>k. k \<noteq> current_device u' \<longrightarrow> dict_get (devices u') k = dict_get (devices u) k"
    using c e by (auto simp: dict_get_set_other split: if_splits)
next
  show "run [ToggleLight] init_app =
     Inr \<lparr> devices = [(''Living Room Light'', ''Off''),
                       (''Thermostat'', ''22'' @ degC),
                       (''Security System'', ''Disarmed'')],
            current_device = ''Thermostat'', action_count = 1 \<rparr>"
    by code_simp
  show "run [ToggleLight, ToggleLight] init_app =
     Inr \<lparr> devices = [(''Living Room Light'', ''Off''),
                       (''Thermostat'', ''22'' @ degC),
                       (''Security System'', ''Disarmed'')],
            current_device = ''Security System'', action_count = 2 \<rparr>"
    by code_simp
  show "run [ToggleLight, ToggleLight, ToggleLight] init_app =
     Inr \<lparr> devices = [(''Living Room Light'', ''On''),
                       (''Thermostat'', ''22'' @ degC),
                       (''Security System'', ''Disarmed'')],
            current_device = ''Living Room Light'', action_count = 3 \<rparr>"
    by code_simp
qed

theorem C2_mutation_iff_cursor_lands_on_target_witness:
  "toggleLight (app_of ''Off'' 22 ''Security System'' 2) =
     Inr (app_of ''On'' 22 ''Living Room Light'' 3) \<and>
   dict_get (devices (app_of ''On'' 22 ''Living Room Light'' 3)) ''Living Room Light''
     \<noteq> dict_get (devices (app_of ''Off'' 22 ''Security System'' 2)) ''Living Room Light'' \<and>
   dict_get (devices (app_of ''On'' 22 ''Living Room Light'' 3)) ''Thermostat''
     = dict_get (devices (app_of ''Off'' 22 ''Security System'' 2)) ''Thermostat'' \<and>
   setThermostat (app_of ''Off'' 22 ''Living Room Light'' 0) =
     Inr (app_of ''Off'' 23 ''Thermostat'' 1) \<and>
   dict_get (devices (app_of ''Off'' 23 ''Thermostat'' 1)) ''Thermostat''
     \<noteq> dict_get (devices (app_of ''Off'' 22 ''Living Room Light'' 0)) ''Thermostat'' \<and>
   dict_get (devices (app_of ''Off'' 23 ''Thermostat'' 1)) ''Living Room Light''
     = dict_get (devices (app_of ''Off'' 22 ''Living Room Light'' 0)) ''Living Room Light''"
proof -
  have t: "toggleLight (app_of ''Off'' 22 ''Security System'' 2) =
     Inr (app_of ''On'' 22 ''Living Room Light'' 3)"
    by (simp add: toggleLight_app_of light_flip_def)
  have u: "setThermostat (app_of ''Off'' 22 ''Living Room Light'' 0) =
     Inr (app_of ''Off'' 23 ''Thermostat'' 1)"
    by (simp add: setThermostat_app_of new_temp_def)
  have c: "current_device (app_of ''On'' 22 ''Living Room Light'' 3) = ''Living Room Light''"
    "current_device (app_of ''Off'' 23 ''Thermostat'' 1) = ''Thermostat''"
    by (simp_all add: app_of_def)
  note th = C2_mutation_iff_cursor_lands_on_target
    [of "app_of ''Off'' 22 ''Security System'' 2" "app_of ''On'' 22 ''Living Room Light'' 3"
        "app_of ''Off'' 22 ''Living Room Light'' 0" "app_of ''Off'' 23 ''Thermostat'' 1"]
  from th t c have 1:
    "dict_get (devices (app_of ''On'' 22 ''Living Room Light'' 3)) ''Living Room Light''
     \<noteq> dict_get (devices (app_of ''Off'' 22 ''Security System'' 2)) ''Living Room Light''"
    by simp
  from th t c have 2:
    "dict_get (devices (app_of ''On'' 22 ''Living Room Light'' 3)) ''Thermostat''
     = dict_get (devices (app_of ''Off'' 22 ''Security System'' 2)) ''Thermostat''"
    by simp
  from th u c have 3:
    "dict_get (devices (app_of ''Off'' 23 ''Thermostat'' 1)) ''Thermostat''
     \<noteq> dict_get (devices (app_of ''Off'' 22 ''Living Room Light'' 0)) ''Thermostat''"
    by simp
  from th u c have 4:
    "dict_get (devices (app_of ''Off'' 23 ''Thermostat'' 1)) ''Living Room Light''
     = dict_get (devices (app_of ''Off'' 22 ''Living Room Light'' 0)) ''Living Room Light''"
    by simp
  from t u 1 2 3 4 show ?thesis by blast
qed

text \<open>
  C6 (each time a \<open>toggleLight\<close> call lands on the Living Room Light its value flips
  between the two tags \<open>"Off"\<close> and \<open>"On"\<close>; the flips alternate, so two of them are the
  identity). After every run from the initial state the light's value is one of the two
  tags; a further \<open>toggleLight\<close> call returns, with the flipped value when it landed on the
  light and the old value otherwise; the flip exchanges the two tags; and six further
  \<open>toggleLight\<close> calls, which land on the light twice, return with the old value.
\<close>

theorem C6_light_flips_between_off_and_on:
  "\<exists>s v. run acts init_app = Inr s \<and>
      dict_get (devices s) ''Living Room Light'' = Inr v \<and>
      (v = ''Off'' \<or> v = ''On'') \<and>
      (\<exists>s'. toggleLight s = Inr s' \<and>
         dict_get (devices s') ''Living Room Light'' =
           Inr (if current_device s' = ''Living Room Light'' then light_flip v else v)) \<and>
      light_flip ''Off'' = ''On'' \<and> light_flip ''On'' = ''Off'' \<and>
      light_flip (light_flip v) = v \<and>
      (\<exists>s''. run (replicate 6 ToggleLight) s = Inr s'' \<and>
         dict_get (devices s'') ''Living Room Light'' = Inr v)"
proof -
  from run_init [of acts] obtain s where r: "run acts init_app = Inr s"
    and f: "reachable_form s" by blast
  from f obtain lv n c k where s: "s = app_of lv n c k" and lv: "lv = ''Off'' \<or> lv = ''On''"
    and c: "c = ''Living Room Light'' \<or> c = ''Thermostat'' \<or> c = ''Security System''"
    unfolding reachable_form_def by blast
  have g: "dict_get (devices (app_of x n d j)) ''Living Room Light'' = Inr x" for x d j
    by (simp add: app_of_def dict_get_def)
  have cur: "current_device (app_of x n d j) = d" for x d j
    by (simp add: app_of_def)
  have ff: "light_flip (light_flip lv) = lv"
    using lv by (auto simp: light_flip_def)
  have one: "\<exists>s'. toggleLight s = Inr s' \<and>
         dict_get (devices s') ''Living Room Light'' =
           Inr (if current_device s' = ''Living Room Light'' then light_flip lv else lv)"
    using c by (auto simp: s toggleLight_app_of g cur)
  have six: "\<exists>s''. run (replicate 6 ToggleLight) s = Inr s'' \<and>
         dict_get (devices s'') ''Living Room Light'' = Inr lv"
    using c by (auto simp: s eval_nat_numeral toggleLight_app_of g ff)
  have "light_flip ''Off'' = ''On''" "light_flip ''On'' = ''Off''"
    by (simp_all add: light_flip_def)
  with r g [of lv c k] lv one six ff show ?thesis
    unfolding s by blast
qed

text \<open>
  C9 (a \<open>toggleLight\<close> call leaves the values of the Thermostat and the Security System
  unchanged, a \<open>setThermostat\<close> call those of the Living Room Light and the Security
  System; a handler writes only to its own target key, and otherwise only moves the cursor
  and counts). In any state, when a handler returns, every key other than its target has
  the value it had, the keys are the same, and the counter is one higher.
\<close>

theorem C9_handlers_write_only_their_target:
  "(toggleLight s = Inr s' \<longrightarrow>
      dict_get (devices s') ''Thermostat'' = dict_get (devices s) ''Thermostat'' \<and>
      dict_get (devices s') ''Security System'' = dict_get (devices s) ''Security System'' \<and>
      (\<forall>k. k \<noteq> ''Living Room Light'' \<longrightarrow> dict_get (devices s') k = dict_get (devices s) k) \<and>
      dict_keys (devices s') = dict_keys (devices s) \<and>
      action_count s' = action_count s + 1) \<and>
   (setThermostat u = Inr u' \<longrightarrow>
      dict_get (devices u') ''Living Room Light'' = dict_get (devices u) ''Living Room Light'' \<and>
      dict_get (devices u') ''Security System'' = dict_get (devices u) ''Security System'' \<and>
      (\<forall>k. k \<noteq> ''Thermostat'' \<longrightarrow> dict_get (devices u') k = dict_get (devices u) k) \<and>
      dict_keys (devices u') = dict_keys (devices u) \<and>
      action_count u' = action_count u + 1)"
proof (intro conjI impI)
  assume a: "toggleLight s = Inr s'"
  then have st: "step ToggleLight s = Inr s'" by simp
  from toggleLight_Inr [OF a]
  have o: "k \<noteq> ''Living Room Light'' \<Longrightarrow> dict_get (devices s') k = dict_get (devices s) k" for k
    by (auto simp: dict_get_set_other split: if_splits)
  from o show "dict_get (devices s') ''Thermostat'' = dict_get (devices s) ''Thermostat''"
    by simp
  from o show "dict_get (devices s') ''Security System'' = dict_get (devices s) ''Security System''"
    by simp
  from o show "\<forall>k. k \<noteq> ''Living Room Light'' \<longrightarrow> dict_get (devices s') k = dict_get (devices s) k"
    by blast
  show "dict_keys (devices s') = dict_keys (devices s)" by (rule step_keys [OF st])
  show "action_count s' = action_count s + 1" by (rule step_count [OF st])
next
  assume a: "setThermostat u = Inr u'"
  then have st: "step SetThermostat u = Inr u'" by simp
  from setThermostat_Inr [OF a]
  have o: "k \<noteq> ''Thermostat'' \<Longrightarrow> dict_get (devices u') k = dict_get (devices u) k" for k
    by (auto simp: dict_get_set_other split: if_splits)
  from o show "dict_get (devices u') ''Living Room Light'' = dict_get (devices u) ''Living Room Light''"
    by simp
  from o show "dict_get (devices u') ''Security System'' = dict_get (devices u) ''Security System''"
    by simp
  from o show "\<forall>k. k \<noteq> ''Thermostat'' \<longrightarrow> dict_get (devices u') k = dict_get (devices u) k"
    by blast
  show "dict_keys (devices u') = dict_keys (devices u)" by (rule step_keys [OF st])
  show "action_count u' = action_count u + 1" by (rule step_count [OF st])
qed

theorem C9_handlers_write_only_their_target_witness:
  "toggleLight (app_of ''Off'' 22 ''Security System'' 2) =
     Inr (app_of ''On'' 22 ''Living Room Light'' 3) \<and>
   dict_get (devices (app_of ''On'' 22 ''Living Room Light'' 3)) ''Thermostat''
     = dict_get (devices (app_of ''Off'' 22 ''Security System'' 2)) ''Thermostat'' \<and>
   dict_get (devices (app_of ''On'' 22 ''Living Room Light'' 3)) ''Security System''
     = dict_get (devices (app_of ''Off'' 22 ''Security System'' 2)) ''Security System'' \<and>
   setThermostat (app_of ''Off'' 22 ''Living Room Light'' 0) =
     Inr (app_of ''Off'' 23 ''Thermostat'' 1) \<and>
   dict_get (devices (app_of ''Off'' 23 ''Thermostat'' 1)) ''Living Room Light''
     = dict_get (devices (app_of ''Off'' 22 ''Living Room Light'' 0)) ''Living Room Light'' \<and>
   dict_get (devices (app_of ''Off'' 23 ''Thermostat'' 1)) ''Security System''
     = dict_get (devices (app_of ''Off'' 22 ''Living Room Light'' 0)) ''Security System''"
proof -
  have t: "toggleLight (app_of ''Off'' 22 ''Security System'' 2) =
     Inr (app_of ''On'' 22 ''Living Room Light'' 3)"
    by (simp add: toggleLight_app_of light_flip_def)
  have u: "setThermostat (app_of ''Off'' 22 ''Living Room Light'' 0) =
     Inr (app_of ''Off'' 23 ''Thermostat'' 1)"
    by (simp add: setThermostat_app_of new_temp_def)
  from C9_handlers_write_only_their_target
    [of "app_of ''Off'' 22 ''Security System'' 2" "app_of ''On'' 22 ''Living Room Light'' 3"
        "app_of ''Off'' 22 ''Living Room Light'' 0" "app_of ''Off'' 23 ''Thermostat'' 1"] t u
  show ?thesis by blast
qed

end
